theory Spec2Isabelle
  imports Main "HOL-Library.AList"
begin

section \<open>Values, strings and dictionaries\<close>

text \<open>
  Configuration values, as far as \<^verbatim>\<open>mc/core/assets.py\<close> looks at them: the
  \<^verbatim>\<open>load\<close> trigger and the \<^verbatim>\<open>file\<close> entry are strings, a priority is an
  integer; \<^verbatim>\<open>None\<close> is Python's \<^verbatim>\<open>None\<close>.
\<close>

datatype val = VNone | VInt int | VStr string

text \<open>
  A Python \<^verbatim>\<open>dict\<close> is an association list with distinct keys in insertion order:
  \<^verbatim>\<open>d[k] = v\<close> overwrites in place or appends (\<^const>\<open>AList.update\<close>),
  \<^verbatim>\<open>d[k]\<close> is \<^const>\<open>map_of\<close>, and \<^verbatim>\<open>d.update(e)\<close> stores the items of
  \<^verbatim>\<open>e\<close> one after the other.
\<close>

type_synonym 'v dict = "(string \<times> 'v) list"

type_synonym cfg = "val dict"

definition dict_update :: "'v dict \<Rightarrow> 'v dict \<Rightarrow> 'v dict" where
  "dict_update d e = fold (\<lambda>(k, v) acc. AList.update k v acc) e d"

datatype py_error = KeyError string | ValueError string

subsection \<open>\<^verbatim>\<open>str(int)\<close>, \<^verbatim>\<open>"%s"\<close> and string comparison\<close>

definition digit_char :: "nat \<Rightarrow> char" where
  "digit_char d = char_of (48 + d)"

fun str_nat :: "nat \<Rightarrow> string" where
  "str_nat n = (if n < 10 then [digit_char n] else str_nat (n div 10) @ [digit_char (n mod 10)])"

declare str_nat.simps [simp del]

definition str_int :: "int \<Rightarrow> string" where
  "str_int i = (if i < 0 then CHR ''-'' # str_nat (nat (- i)) else str_nat (nat i))"

text \<open>\<^verbatim>\<open>"%s" % x\<close>, that is \<^verbatim>\<open>str(x)\<close>.\<close>

fun py_str :: "val \<Rightarrow> string" where
  "py_str VNone = ''None''"
| "py_str (VInt i) = str_int i"
| "py_str (VStr s) = s"

text \<open>
  Python compares strings lexicographically by code point; a proper prefix is smaller.
\<close>

fun str_lt :: "string \<Rightarrow> string \<Rightarrow> bool" where
  "str_lt [] [] = False"
| "str_lt [] (y # ys) = True"
| "str_lt (x # xs) [] = False"
| "str_lt (x # xs) (y # ys) =
     ((of_char x :: nat) < of_char y \<or> (x = y \<and> str_lt xs ys))"

definition str_gt :: "string \<Rightarrow> string \<Rightarrow> bool" where
  "str_gt a b = str_lt b a"

subsection \<open>Path functions\<close>

text \<open>
  The functions of Python's \<^verbatim>\<open>os.path\<close> that discovery calls, in their POSIX
  version, on strings of ASCII characters: \<^verbatim>\<open>str.endswith\<close> with a tuple,
  \<^verbatim>\<open>os.path.join\<close>, \<^verbatim>\<open>os.path.basename\<close>, the first component of
  \<^verbatim>\<open>os.path.splitext\<close>, and \<^verbatim>\<open>str.lower\<close>.
\<close>

definition endswith :: "string \<Rightarrow> string \<Rightarrow> bool" where
  "endswith s e = (length e \<le> length s \<and> drop (length s - length e) s = e)"

definition endswith_any :: "string \<Rightarrow> string list \<Rightarrow> bool" where
  "endswith_any s es = list_ex (endswith s) es"

definition join_step :: "string \<Rightarrow> string \<Rightarrow> string" where
  "join_step path b =
     (if take 1 b = ''/'' then b
      else if path = [] \<or> last path = CHR ''/'' then path @ b
      else path @ ''/'' @ b)"

definition path_join :: "string \<Rightarrow> string list \<Rightarrow> string" where
  "path_join a ps = fold (\<lambda>b path. join_step path b) ps a"

definition basename :: "string \<Rightarrow> string" where
  "basename p = rev (takeWhile (\<lambda>c. c \<noteq> CHR ''/'') (rev p))"

text \<open>\<^verbatim>\<open>p.rfind(c)\<close>: the last index of \<open>c\<close>, or \<open>-1\<close>.\<close>

definition rfind :: "char \<Rightarrow> string \<Rightarrow> int" where
  "rfind c p =
     (if c \<in> set p then int (length p) - 1 - int (length (takeWhile (\<lambda>x. x \<noteq> c) (rev p)))
      else - 1)"

text \<open>
  \<^verbatim>\<open>os.path.splitext(p)[0]\<close>: the path up to its last dot, when that dot comes after
  the last separator and after a character of the file name that is not a dot.
\<close>

definition splitext_root :: "string \<Rightarrow> string" where
  "splitext_root p =
     (let sepIndex = rfind (CHR ''/'') p; dotIndex = rfind (CHR ''.'') p in
      if dotIndex > sepIndex \<and>
         list_ex (\<lambda>c. c \<noteq> CHR ''.'')
           (take (nat (dotIndex - (sepIndex + 1))) (drop (nat (sepIndex + 1)) p))
      then take (nat dotIndex) p
      else p)"

definition char_lower :: "char \<Rightarrow> char" where
  "char_lower c =
     (let n = (of_char c :: nat) in if 65 \<le> n \<and> n \<le> 90 then char_of (n + 32) else c)"

definition lower :: "string \<Rightarrow> string" where
  "lower s = map char_lower s"

section \<open>The asset-class registry\<close>

text \<open>
  One entry of \<^verbatim>\<open>AssetManager._asset_classes\<close> (the \<^verbatim>\<open>cls\<close> reference is left
  out): \<^verbatim>\<open>defaults\<close> maps \<^verbatim>\<open>'default'\<close> and folder names to merged settings.
\<close>

record asset_class =
  attribute :: string
  path_string :: string
  config_section :: string
  extensions :: "string list"
  class_priority :: int
  defaults :: "cfg dict"

text \<open>
  A configuration dictionary (the machine's or a mode's): \<^verbatim>\<open>config['assets']\<close>, absent
  (\<open>None\<close>) or a dictionary from config sections to named default settings, and the
  remaining top-level sections, each a dictionary from asset names to settings.
\<close>

record config =
  assets :: "cfg dict dict option"
  sections :: "cfg dict dict"

text \<open>
  \<^verbatim>\<open>AssetManager._set_asset_class_defaults\<close>. \<^verbatim>\<open>this_config\<close> is the section's
  dictionary itself, not a copy, so \<^verbatim>\<open>this_config.pop('default')\<close> changes the
  configuration that was passed in: the function returns it next to the asset class.
  \<^verbatim>\<open>pop\<close> raises \<^verbatim>\<open>KeyError\<close> when the section has no \<^verbatim>\<open>'default'\<close>. The values
  are immutable here, so \<^verbatim>\<open>copy.deepcopy\<close> is the identity.
\<close>

definition set_asset_class_defaults ::
  "asset_class \<Rightarrow> config \<Rightarrow> py_error + (asset_class \<times> config)" where
  "set_asset_class_defaults ac config =
     (case assets config of
        None \<Rightarrow> Inr (ac\<lparr>defaults := []\<rparr>, config)
      | Some a \<Rightarrow>
          if a = [] then Inr (ac\<lparr>defaults := []\<rparr>, config)
          else
            (case map_of a (config_section ac) of
               None \<Rightarrow> Inr (ac\<lparr>defaults := []\<rparr>, config)
             | Some this_config \<Rightarrow>
                 if this_config = [] then Inr (ac\<lparr>defaults := []\<rparr>, config)
                 else
                   (case map_of this_config ''default'' of
                      None \<Rightarrow> Inl (KeyError ''default'')
                    | Some d \<Rightarrow>
                        let popped = AList.delete ''default'' this_config;
                            default_config_dict =
                              fold (\<lambda>(default_section_name, settings) acc.
                                      AList.update default_section_name (dict_update d settings) acc)
                                popped [(''default'', d)]
                        in Inr (ac\<lparr>defaults := default_config_dict\<rparr>,
                                config\<lparr>assets := Some (AList.update (config_section ac) popped a)\<rparr>))))"

text \<open>
  The part of the media controller that registration touches: the names of the attributes
  of \<^verbatim>\<open>mc\<close>, the machine configuration and the list of asset classes.
\<close>

record registry =
  mc_attributes :: "string list"
  machine_config :: config
  asset_classes :: "asset_class list"

text \<open>
  \<^verbatim>\<open>AssetManager.register_asset_class\<close>. The source appends the class, sorts the list
  (\<^verbatim>\<open>list.sort\<close> is stable, also with \<^verbatim>\<open>reverse=True\<close>) and then fills in the
  defaults of the appended dictionary in place; the sort key does not read the defaults.
\<close>

definition register_asset_class ::
  "string \<Rightarrow> string \<Rightarrow> string \<Rightarrow> string list \<Rightarrow> int \<Rightarrow> registry \<Rightarrow> py_error + registry" where
  "register_asset_class attr section pstring exts prio r =
     (if attr \<in> set (mc_attributes r) then Inl (ValueError attr)
      else
        let ac = \<lparr>attribute = attr, path_string = pstring, config_section = section,
                  extensions = exts, class_priority = prio, defaults = []\<rparr>
        in case set_asset_class_defaults ac (machine_config r) of
             Inl e \<Rightarrow> Inl e
           | Inr (ac', config') \<Rightarrow>
               Inr (r\<lparr>mc_attributes := attr # mc_attributes r,
                       machine_config := config',
                       asset_classes :=
                         sort_key (\<lambda>x. - class_priority x) (asset_classes r @ [ac'])\<rparr>))"

section \<open>Discovery\<close>

text \<open>
  The body of the loops of \<^verbatim>\<open>AssetManager._create_asset_config_entries\<close>, for one file
  \<^verbatim>\<open>file_name\<close> of the directory \<^verbatim>\<open>path\<close>.
\<close>

definition default_string :: "asset_class \<Rightarrow> string \<Rightarrow> string" where
  "default_string ac folder =
     (if folder = path_string ac \<or> map_of (defaults ac) folder = None then ''default''
      else folder)"

text \<open>
  The scan \<^verbatim>\<open>for k, v in config.items()\<close> with its \<^verbatim>\<open>break\<close>: the first entry whose
  \<^verbatim>\<open>file\<close> is the file name or whose key is the name.
\<close>

definition find_entry :: "cfg dict \<Rightarrow> string \<Rightarrow> string \<Rightarrow> (string \<times> cfg) option" where
  "find_entry config file_name name =
     List.find (\<lambda>(k, v). map_of v ''file'' = Some (VStr file_name) \<or> name = k) config"

text \<open>
  The name and the built-up config after the scan: the defaults of the folder, updated with
  the matching entry. \<^verbatim>\<open>asset_class['defaults'][default_string]\<close> raises
  \<^verbatim>\<open>KeyError\<close> when the class has no such defaults.
\<close>

definition merge_entry ::
  "asset_class \<Rightarrow> cfg dict \<Rightarrow> string \<Rightarrow> string \<Rightarrow> py_error + (string \<times> cfg)" where
  "merge_entry ac config path file_name =
     (let folder = basename path;
          name = lower (splitext_root file_name)
      in case map_of (defaults ac) (default_string ac folder) of
           None \<Rightarrow> Inl (KeyError (default_string ac folder))
         | Some d \<Rightarrow>
             (case find_entry config file_name name of
                None \<Rightarrow> Inr (name, d)
              | Some (k, v) \<Rightarrow> Inr (k, dict_update d v)))"

text \<open>\<^verbatim>\<open>'{}_start'.format(mode_name)\<close>; the mode name is \<^verbatim>\<open>None\<close> outside a mode.\<close>

definition start_key :: "string option \<Rightarrow> string" where
  "start_key mode_name = (case mode_name of None \<Rightarrow> ''None'' | Some m \<Rightarrow> m) @ ''_start''"

definition build_config ::
  "asset_class \<Rightarrow> cfg dict \<Rightarrow> string option \<Rightarrow> string \<Rightarrow> string \<Rightarrow> py_error + (string \<times> cfg)" where
  "build_config ac config mode_name path file_name =
     (case merge_entry ac config path file_name of
        Inl e \<Rightarrow> Inl e
      | Inr (name, merged) \<Rightarrow>
          let built = AList.update ''file'' (VStr (path_join path [file_name])) merged
          in case map_of built ''load'' of
               None \<Rightarrow> Inl (KeyError ''load'')
             | Some l \<Rightarrow>
                 Inr (name,
                      if l = VStr ''mode_start''
                      then AList.update ''load'' (VStr (start_key mode_name)) built
                      else built))"

definition process_file ::
  "asset_class \<Rightarrow> string option \<Rightarrow> string \<Rightarrow> string \<Rightarrow> cfg dict \<Rightarrow> py_error + cfg dict" where
  "process_file ac mode_name path file_name config =
     (case build_config ac config mode_name path file_name of
        Inl e \<Rightarrow> Inl e
      | Inr (name, built_up_config) \<Rightarrow> Inr (AList.update name built_up_config config))"

text \<open>The inner loop, over the valid files of one directory; an exception ends it.\<close>

fun process_files ::
  "asset_class \<Rightarrow> string option \<Rightarrow> string \<Rightarrow> string list \<Rightarrow> cfg dict \<Rightarrow> py_error + cfg dict" where
  "process_files ac mode_name path [] config = Inr config"
| "process_files ac mode_name path (f # fs) config =
     (case process_file ac mode_name path f config of
        Inl e \<Rightarrow> Inl e
      | Inr config' \<Rightarrow> process_files ac mode_name path fs config')"

text \<open>
  The outer loop, over what \<^verbatim>\<open>os.walk\<close> yields: the directories under the root, each
  with the names of its files.
\<close>

fun process_walk ::
  "asset_class \<Rightarrow> string option \<Rightarrow> (string \<times> string list) list \<Rightarrow> cfg dict \<Rightarrow> py_error + cfg dict" where
  "process_walk ac mode_name [] config = Inr config"
| "process_walk ac mode_name ((path, files) # rest) config =
     (case process_files ac mode_name path
             (filter (\<lambda>f. endswith_any f (extensions ac)) files) config of
        Inl e \<Rightarrow> Inl e
      | Inr config' \<Rightarrow> process_walk ac mode_name rest config')"

text \<open>
  \<^verbatim>\<open>AssetManager._create_asset_config_entries\<close>. The file system is the parameter
  \<open>walk\<close>, which gives for a root what \<^verbatim>\<open>os.walk(root, followlinks=True)\<close> yields
  there; an empty \<open>path\<close> stands for a false one (\<^verbatim>\<open>None\<close> or \<^verbatim>\<open>''\<close>).
\<close>

definition create_asset_config_entries ::
  "(string \<Rightarrow> (string \<times> string list) list) \<Rightarrow> string \<Rightarrow> asset_class \<Rightarrow> cfg dict \<Rightarrow>
   string option \<Rightarrow> string \<Rightarrow> py_error + cfg dict" where
  "create_asset_config_entries walk machine_path ac config mode_name path =
     (let path' = (if path = [] then machine_path else path);
          root_path = path_join path' [path_string ac]
      in process_walk ac mode_name (walk root_path) config)"

text \<open>
  \<^verbatim>\<open>AssetManager.locate_asset_file\<close>; \<open>isfile\<close> is \<^verbatim>\<open>os.path.isfile\<close> on the file
  system at hand.
\<close>

fun first_file :: "(string \<Rightarrow> bool) \<Rightarrow> string \<Rightarrow> string \<Rightarrow> string list \<Rightarrow> string option" where
  "first_file isfile pstring file_name [] = None"
| "first_file isfile pstring file_name (path # path_list) =
     (let full_path = path_join path [pstring, file_name]
      in if isfile full_path then Some full_path
         else first_file isfile pstring file_name path_list)"

definition locate_asset_file ::
  "(string \<Rightarrow> bool) \<Rightarrow> string \<Rightarrow> string \<Rightarrow> string \<Rightarrow> string \<Rightarrow> py_error + string" where
  "locate_asset_file isfile machine_path file_name pstring path =
     (let path_list = (if path \<noteq> [] then [path] else []) @ [machine_path]
      in case first_file isfile pstring file_name path_list of
           Some full_path \<Rightarrow> Inr full_path
         | None \<Rightarrow> Inl (ValueError file_name))"

section \<open>Assets\<close>

text \<open>
  What is passed as \<^verbatim>\<open>callback\<close>: \<^verbatim>\<open>None\<close> (the default) or another object that
  is not callable, or a callable, named by a number. The body of a callback is not
  modelled: calling it is recorded, in the order of the calls.
\<close>

datatype callback = NotCallable | Callable nat

text \<open>
  An \<^verbatim>\<open>AssetClass\<close> instance. \<^verbatim>\<open>_callbacks\<close> is a Python set: a list without
  repetitions here, \<^verbatim>\<open>set.add\<close> being \<^const>\<open>List.insert\<close>.
\<close>

record asset =
  name :: string
  asset_file :: val
  asset_config :: cfg
  priority :: val
  callbacks :: "callback list"
  asset_id :: int
  loading :: bool
  loaded :: bool
  unloading :: bool

text \<open>\<^verbatim>\<open>AssetClass._get_id\<close> on the class counter \<^verbatim>\<open>_next_id\<close>: the id and the new counter.\<close>

definition get_id :: "int \<Rightarrow> int \<times> int" where
  "get_id next_id = (next_id + 1, next_id + 1)"

text \<open>\<^verbatim>\<open>AssetClass.__init__\<close>, with the class counter passed through.\<close>

definition asset_init :: "string \<Rightarrow> val \<Rightarrow> cfg \<Rightarrow> int \<Rightarrow> asset \<times> int" where
  "asset_init n f c next_id =
     (let (i, next_id') = get_id next_id
      in (\<lparr>name = n, asset_file = f, asset_config = c,
           priority = (case map_of c ''priority'' of None \<Rightarrow> VInt 0 | Some p \<Rightarrow> p),
           callbacks = [], asset_id = i,
           loading = False, loaded = False, unloading = False\<rparr>, next_id'))"

text \<open>\<^verbatim>\<open>AssetClass.__lt__\<close>: the two formatted strings, compared as strings.\<close>

definition sort_string :: "asset \<Rightarrow> string" where
  "sort_string a = py_str (priority a) @ '', '' @ str_int (asset_id a)"

definition asset_lt :: "asset \<Rightarrow> asset \<Rightarrow> bool" where
  "asset_lt self other = str_gt (sort_string self) (sort_string other)"

section \<open>The loader queue\<close>

text \<open>
  Python's \<^verbatim>\<open>queue.PriorityQueue\<close> by its contract: \<^verbatim>\<open>put\<close> adds an item and
  \<^verbatim>\<open>get\<close> removes and returns a smallest item, smallest by the items' own
  \<^verbatim>\<open>__lt__\<close>; \<open>None\<close> stands for a \<^verbatim>\<open>get\<close> that blocks on the empty queue.
\<close>

definition queue_put :: "asset \<Rightarrow> asset list \<Rightarrow> asset list" where
  "queue_put a q = q @ [a]"

fun smallest :: "asset \<Rightarrow> asset list \<Rightarrow> asset" where
  "smallest m [] = m"
| "smallest m (x # xs) = smallest (if asset_lt x m then x else m) xs"

definition queue_get :: "asset list \<Rightarrow> (asset \<times> asset list) option" where
  "queue_get q =
     (case q of [] \<Rightarrow> None
      | x # xs \<Rightarrow> (let m = smallest x xs in Some (m, remove1 m q)))"

text \<open>The assets that the first \<open>n\<close> calls of \<^verbatim>\<open>get\<close> return, in that order.\<close>

fun dequeue :: "nat \<Rightarrow> asset list \<Rightarrow> asset list" where
  "dequeue 0 q = []"
| "dequeue (Suc n) q =
     (case queue_get q of None \<Rightarrow> [] | Some (a, q') \<Rightarrow> a # dequeue n q')"

section \<open>The asset manager's counters\<close>

record manager =
  num_assets_to_load :: int
  num_assets_loaded :: int
  loader_queue :: "asset list"
  loaded_queue :: "asset list"
  loaded_watcher :: bool

text \<open>\<^verbatim>\<open>AssetManager.__init__\<close>, as far as these fields go.\<close>

definition manager_init :: manager where
  "manager_init =
     \<lparr>num_assets_to_load = 0, num_assets_loaded = 0, loader_queue = [], loaded_queue = [],
      loaded_watcher = False\<rparr>"

text \<open>
  \<^verbatim>\<open>AssetManager._load_asset\<close>; scheduling \<^verbatim>\<open>_check_loader_status\<close> on the clock
  is the flag \<^verbatim>\<open>_loaded_watcher\<close>.
\<close>

definition load_asset :: "asset \<Rightarrow> manager \<Rightarrow> manager" where
  "load_asset a m =
     (let m1 = m\<lparr>num_assets_to_load := num_assets_to_load m + 1\<rparr>;
          m2 = m1\<lparr>loader_queue := queue_put a (loader_queue m1)\<rparr>
      in if \<not> loaded_watcher m2 then m2\<lparr>loaded_watcher := True\<rparr> else m2)"

text \<open>
  \<^verbatim>\<open>AssetClass._call_callbacks\<close>: the asset with its set emptied, and the callables
  that were called.
\<close>

definition call_callbacks :: "asset \<Rightarrow> asset \<times> nat list" where
  "call_callbacks a =
     (a\<lparr>callbacks := []\<rparr>,
      concat (map (\<lambda>c. case c of Callable n \<Rightarrow> [n] | NotCallable \<Rightarrow> []) (callbacks a)))"

text \<open>
  \<^verbatim>\<open>AssetClass.load\<close>; a \<open>prio\<close> of \<^const>\<open>VNone\<close> is the default
  \<^verbatim>\<open>priority=None\<close>. The result is the asset, the manager and the callables that were
  called before \<^verbatim>\<open>load\<close> returned.
\<close>

definition load :: "callback \<Rightarrow> val \<Rightarrow> asset \<times> manager \<Rightarrow> asset \<times> manager \<times> nat list" where
  "load cb prio am =
     (let (a, m) = am;
          a1 = (if prio \<noteq> VNone then a\<lparr>priority := prio\<rparr> else a);
          a2 = a1\<lparr>callbacks := List.insert cb (callbacks a1)\<rparr>
      in if loaded a2 then (let (a3, called) = call_callbacks a2 in (a3, m, called))
         else (let a3 = a2\<lparr>loading := True\<rparr> in (a3, load_asset a3 m, [])))"

text \<open>\<^verbatim>\<open>AssetClass._loaded\<close>.\<close>

definition asset_loaded :: "asset \<Rightarrow> asset \<times> nat list" where
  "asset_loaded a = call_callbacks (a\<lparr>loading := False, loaded := True, unloading := False\<rparr>)"

text \<open>
  \<^verbatim>\<open>AssetClass.unload\<close>. The primitive \<^verbatim>\<open>_do_unload\<close> of the subclass is the
  parameter \<open>do_unload\<close>: it returns (\<open>None\<close>) or raises, and does not write the three
  flags. The result carries the manager, which \<^verbatim>\<open>unload\<close> does not use, and the calls
  of the primitive, each as the asset it was called on. An exception leaves the method
  before the last line.
\<close>

definition unload ::
  "(asset \<Rightarrow> string option) \<Rightarrow> asset \<times> manager \<Rightarrow>
   string + (asset \<times> manager \<times> asset list)" where
  "unload do_unload am =
     (let (a, m) = am;
          a1 = a\<lparr>unloading := True\<rparr>;
          a2 = a1\<lparr>loaded := False\<rparr>;
          a3 = a2\<lparr>loading := False\<rparr>
      in case do_unload a3 of
           Some exc \<Rightarrow> Inl exc
         | None \<Rightarrow> Inr (a3\<lparr>unloading := False\<rparr>, m, [a3]))"

text \<open>
  \<^verbatim>\<open>AssetManager._check_loader_status\<close>: the loop that empties the loaded queue,
  then the comparison of the counters. The result also has the assets taken from the
  queue, after \<^verbatim>\<open>_loaded()\<close>, each with the callables it called.
\<close>

fun drain_loaded :: "asset list \<Rightarrow> int \<Rightarrow> int \<times> (asset \<times> nat list) list" where
  "drain_loaded [] n = (n, [])"
| "drain_loaded (a # q) n =
     (let (n', finished) = drain_loaded q (n + 1) in (n', asset_loaded a # finished))"

definition check_loader_status :: "manager \<Rightarrow> manager \<times> (asset \<times> nat list) list" where
  "check_loader_status m =
     (let (n, finished) = drain_loaded (loaded_queue m) (num_assets_loaded m);
          m1 = m\<lparr>loaded_queue := [], num_assets_loaded := n\<rparr>
      in if num_assets_to_load m1 = num_assets_loaded m1
         then (m1\<lparr>num_assets_loaded := 0, num_assets_to_load := 0, loaded_watcher := False\<rparr>, finished)
         else (m1, finished))"

section \<open>The loader thread\<close>

text \<open>
  \<^verbatim>\<open>AssetLoader.run\<close>, on the assets that \<^verbatim>\<open>loader_queue.get()\<close> returns, in that
  order (each as the loop sees it when it gets it); when they are used up the thread is
  blocked in \<^verbatim>\<open>get\<close>. The primitive \<^verbatim>\<open>_do_load\<close> is the parameter \<open>do_load\<close>, with
  three outcomes: it returns; it raises an exception of the class \<^verbatim>\<open>Exception\<close>, and
  \<open>Raised msg\<close> has the formatted traceback that the handler builds; or it raises an
  exception outside that class (\<^verbatim>\<open>SystemExit\<close>, \<^verbatim>\<open>KeyboardInterrupt\<close>,
  \<^verbatim>\<open>GeneratorExit\<close>), which \<^verbatim>\<open>except Exception\<close> does not catch: it leaves
  \<^verbatim>\<open>run\<close> and ends the thread past the handler. The \<^verbatim>\<open>try\<close> is around the whole
  loop, so the handler is its end too. \<open>loaded_out\<close> is the thread's
  \<^verbatim>\<open>loaded_queue\<close>, as far as this thread has filled it.
\<close>

datatype outcome = Returned | Raised string | RaisedBase

record loader =
  loaded_out :: "asset list"
  exception_queue :: "string list"
  running :: bool

fun run :: "(asset \<Rightarrow> outcome) \<Rightarrow> asset list \<Rightarrow> loader \<Rightarrow> loader" where
  "run do_load [] l = l"
| "run do_load (a # rest) l =
     (case (if \<not> loaded a then do_load a else Returned) of
        Returned \<Rightarrow> run do_load rest (l\<lparr>loaded_out := loaded_out l @ [a]\<rparr>)
      | Raised msg \<Rightarrow> l\<lparr>exception_queue := exception_queue l @ [msg], running := False\<rparr>
      | RaisedBase \<Rightarrow> l\<lparr>running := False\<rparr>)"

section \<open>Runs\<close>

text \<open>
  The files that the two loops of discovery go through, in order: for every directory of
  the walk its valid files. \<open>process_steps\<close> is the loop body along such a list, and
  \<open>process_walk\<close> is \<open>process_steps\<close> on the files of the walk (lemma
  \<open>process_walk_steps\<close>).
\<close>

definition walk_files :: "asset_class \<Rightarrow> (string \<times> string list) list \<Rightarrow> (string \<times> string) list" where
  "walk_files ac w =
     concat (map (\<lambda>(path, files).
                    map (Pair path) (filter (\<lambda>f. endswith_any f (extensions ac)) files)) w)"

fun process_steps ::
  "asset_class \<Rightarrow> string option \<Rightarrow> (string \<times> string) list \<Rightarrow> cfg dict \<Rightarrow> py_error + cfg dict" where
  "process_steps ac mode_name [] config = Inr config"
| "process_steps ac mode_name ((path, f) # steps) config =
     (case process_file ac mode_name path f config of
        Inl e \<Rightarrow> Inl e
      | Inr config' \<Rightarrow> process_steps ac mode_name steps config')"

text \<open>
  The names under which the files of such a list are stored, one after the other, up to
  the first file that raises.
\<close>

fun resolved ::
  "asset_class \<Rightarrow> string option \<Rightarrow> (string \<times> string) list \<Rightarrow> cfg dict \<Rightarrow> string list" where
  "resolved ac mode_name [] config = []"
| "resolved ac mode_name ((path, f) # steps) config =
     (case build_config ac config mode_name path f of
        Inl e \<Rightarrow> []
      | Inr (n, built_up_config) \<Rightarrow>
          n # resolved ac mode_name steps (AList.update n built_up_config config))"

text \<open>
  What happens to the manager, in the order in which it happens: a call of
  \<^verbatim>\<open>_load_asset\<close>, the loader thread's \<^verbatim>\<open>self.loaded_queue.put(asset)\<close>, and a
  call of \<^verbatim>\<open>_check_loader_status\<close> by the clock. A callback that asks for a load
  while the loaded queue is being emptied adds to the counter before the comparison at the
  end of \<^verbatim>\<open>_check_loader_status\<close>, as a request just before the tick does.
\<close>

datatype event = Request asset | Completed asset | Tick

fun step :: "event \<Rightarrow> manager \<Rightarrow> manager" where
  "step (Request a) m = load_asset a m"
| "step (Completed a) m = m\<lparr>loaded_queue := loaded_queue m @ [a]\<rparr>"
| "step Tick m = fst (check_loader_status m)"

definition exec :: "event list \<Rightarrow> manager \<Rightarrow> manager" where
  "exec evs m = fold step evs m"

fun requests :: "event list \<Rightarrow> nat" where
  "requests [] = 0"
| "requests (Request a # evs) = Suc (requests evs)"
| "requests (e # evs) = requests evs"

fun completions :: "event list \<Rightarrow> nat" where
  "completions [] = 0"
| "completions (Completed a # evs) = Suc (completions evs)"
| "completions (e # evs) = completions evs"

text \<open>The requests that have not been counted as loaded nor wait in the loaded queue.\<close>

definition outstanding :: "manager \<Rightarrow> int" where
  "outstanding m =
     num_assets_to_load m - num_assets_loaded m - int (length (loaded_queue m))"

section \<open>Example inputs\<close>

text \<open>The asset that \<^verbatim>\<open>__init__\<close> makes with priority \<open>p\<close> when the counter is at \<open>i - 1\<close>.\<close>

definition new_asset :: "int \<Rightarrow> int \<Rightarrow> asset" where
  "new_asset p i = fst (asset_init ''a'' VNone [(''priority'', VInt p)] (i - 1))"

definition loaded_asset :: asset where
  "loaded_asset = (new_asset 0 1)\<lparr>loaded := True, callbacks := [Callable 1]\<rparr>"

definition loader_init :: loader where
  "loader_init = \<lparr>loaded_out = [], exception_queue = [], running = True\<rparr>"

text \<open>Load primitives: the one of the base class, which raises
  \<^verbatim>\<open>NotImplementedError\<close>, one that raises for the asset with a given id only, and one
  that is interrupted at the asset with a given id.\<close>

definition raising_primitive :: "asset \<Rightarrow> outcome" where
  "raising_primitive a = Raised ''NotImplementedError''"

definition fails_on :: "int \<Rightarrow> asset \<Rightarrow> outcome" where
  "fails_on i a = (if asset_id a = i then Raised ''Traceback'' else Returned)"

definition interrupted_on :: "int \<Rightarrow> asset \<Rightarrow> outcome" where
  "interrupted_on i a = (if asset_id a = i then RaisedBase else Returned)"

text \<open>Unload primitives: one that returns, and the one of the base class.\<close>

definition returning_primitive :: "asset \<Rightarrow> string option" where
  "returning_primitive a = None"

definition raising_unload :: "asset \<Rightarrow> string option" where
  "raising_unload a = Some ''NotImplementedError''"

text \<open>
  An image class, and two \<^verbatim>\<open>assets: images:\<close> sections: the default \<^verbatim>\<open>{a: 1}\<close>
  with the folder \<^verbatim>\<open>foo: {b: 2}\<close>, once as it stands and once with a \<^verbatim>\<open>load\<close> key
  in the default.
\<close>

definition images_class :: asset_class where
  "images_class =
     \<lparr>attribute = ''images'', path_string = ''images'', config_section = ''images'',
      extensions = [''png''], class_priority = 0, defaults = []\<rparr>"

definition plain_section :: "cfg dict" where
  "plain_section = [(''default'', [(''a'', VInt 1)]), (''foo'', [(''b'', VInt 2)])]"

definition preload_section :: "cfg dict" where
  "preload_section =
     [(''default'', [(''a'', VInt 1), (''load'', VStr ''preload'')]), (''foo'', [(''b'', VInt 2)])]"

definition machine_cfg :: "cfg dict \<Rightarrow> config" where
  "machine_cfg sec = \<lparr>assets = Some [(''images'', sec)], sections = []\<rparr>"

definition plain_class :: asset_class where
  "plain_class =
     images_class\<lparr>defaults :=
       [(''default'', [(''a'', VInt 1)]), (''foo'', [(''a'', VInt 1), (''b'', VInt 2)])]\<rparr>"

definition preload_class :: asset_class where
  "preload_class =
     images_class\<lparr>defaults :=
       [(''default'', [(''a'', VInt 1), (''load'', VStr ''preload'')]),
        (''foo'', [(''a'', VInt 1), (''load'', VStr ''preload''), (''b'', VInt 2)])]\<rparr>"

definition example_entries :: "cfg dict" where
  "example_entries = [(''x'', [(''a'', VInt 9)])]"

text \<open>A tree under the images folder with one file, in \<^verbatim>\<open>foo\<close>.\<close>

definition foo_walk :: "string \<Rightarrow> (string \<times> string list) list" where
  "foo_walk root = [(root, []), (path_join root [''foo''], [''x.png''])]"

text \<open>
  A class whose folder \<^verbatim>\<open>foo\<close> has settings of its own for \<^verbatim>\<open>a\<close> and
  \<^verbatim>\<open>load\<close>, and three trees: the same file name in \<^verbatim>\<open>foo\<close> and in \<^verbatim>\<open>zoo\<close>;
  those two and a third file after them; and the file in \<^verbatim>\<open>zoo\<close> alone.
\<close>

definition clash_class :: asset_class where
  "clash_class =
     images_class\<lparr>defaults :=
       [(''default'', [(''a'', VInt 1), (''load'', VStr ''preload'')]),
        (''foo'', [(''a'', VInt 7), (''load'', VStr ''attract_start'')])]\<rparr>"

definition clash_walk :: "(string \<times> string list) list" where
  "clash_walk = [(''/machine/images/foo'', [''x.png'']), (''/machine/images/zoo'', [''x.png''])]"

definition later_walk :: "(string \<times> string list) list" where
  "later_walk =
     [(''/machine/images/foo'', [''x.png'']), (''/machine/images/zoo'', [''x.png'', ''y.png''])]"

definition alone_walk :: "(string \<times> string list) list" where
  "alone_walk = [(''/machine/images/zoo'', [''x.png''])]"

definition only_machine_file :: "string \<Rightarrow> bool" where
  "only_machine_file p = (p = ''/machine/images/x.png'')"

text \<open>A class whose own folder is called \<^verbatim>\<open>foo\<close>, with the same defaults.\<close>

definition foo_class :: asset_class where
  "foo_class = preload_class\<lparr>path_string := ''foo''\<rparr>"

text \<open>Entries of which one brings a \<^verbatim>\<open>load\<close> key, and a tree with three files.\<close>

definition mixed_entries :: "cfg dict" where
  "mixed_entries = [(''y'', [(''load'', VStr ''preload'')]), (''x'', [(''a'', VInt 9)])]"

definition mixed_walk :: "(string \<times> string list) list" where
  "mixed_walk =
     [(''/machine/images'', [''y.png'']), (''/machine/images/foo'', [''x.png'', ''z.png''])]"

definition empty_registry :: "cfg dict \<Rightarrow> registry" where
  "empty_registry sec = \<lparr>mc_attributes = [], machine_config = machine_cfg sec, asset_classes = []\<rparr>"

section \<open>The order of the loader queue\<close>

text \<open>
  Claim C1: requests that are in the queue together leave it by priority, highest first,
  and at equal priority by creation id, lowest first. \<^verbatim>\<open>__lt__\<close> compares the texts
  \<^verbatim>\<open>"priority, id"\<close>, not the numbers. Two assets of priority 0 with the ids 1 and 2,
  put in that order, come out with id 2 first; and with the priorities 9 (id 1) and 10
  (id 2) the asset of priority 9 comes out first.
\<close>

theorem loader_queue_compares_text:
  "map asset_id (dequeue 2 (queue_put (new_asset 0 2) (queue_put (new_asset 0 1) []))) = [2, 1] \<and>
   map priority (dequeue 2 (queue_put (new_asset 10 2) (queue_put (new_asset 9 1) []))) =
     [VInt 9, VInt 10]"
  by code_simp

section \<open>What the loader thread publishes\<close>

lemma run_all_return:
  "\<forall>a\<in>set reqs. loaded a \<or> do_load a = Returned \<Longrightarrow>
   run do_load reqs l = l\<lparr>loaded_out := loaded_out l @ reqs\<rparr>"
  by (induction reqs arbitrary: l) auto

lemma run_append:
  "\<forall>a\<in>set pre. loaded a \<or> do_load a = Returned \<Longrightarrow>
   run do_load (pre @ post) l = run do_load post (l\<lparr>loaded_out := loaded_out l @ pre\<rparr>)"
  by (induction pre arbitrary: l) auto

text \<open>
  Claim C2, as amended: as long as no load primitive has raised, every asset that the
  thread gets is put on the loaded queue once, whether its primitive ran and returned or
  was skipped because the asset was loaded already. When the primitive of an asset
  raises, that asset is not put on the loaded queue and the loop is over, so the assets
  behind it are not put there either. If what it raised is an \<^verbatim>\<open>Exception\<close>, the
  traceback goes to the exception queue; if it is outside \<^verbatim>\<open>Exception\<close>
  (\<^verbatim>\<open>SystemExit\<close>, \<^verbatim>\<open>KeyboardInterrupt\<close>, \<^verbatim>\<open>GeneratorExit\<close>), nothing goes
  to the exception queue.
\<close>

theorem run_publishes_until_fault:
  assumes "\<forall>a\<in>set pre. loaded a \<or> do_load a = Returned"
  shows "run do_load pre l = l\<lparr>loaded_out := loaded_out l @ pre\<rparr> \<and>
         (\<not> loaded a \<and> do_load a = Raised msg \<longrightarrow>
            run do_load (pre @ a # post) l =
              l\<lparr>loaded_out := loaded_out l @ pre,
                exception_queue := exception_queue l @ [msg], running := False\<rparr>) \<and>
         (\<not> loaded a \<and> do_load a = RaisedBase \<longrightarrow>
            run do_load (pre @ a # post) l =
              l\<lparr>loaded_out := loaded_out l @ pre, running := False\<rparr>)"
  using assms by (simp add: run_all_return run_append)

theorem run_publishes_until_fault_witness:
  "run (fails_on 2) [new_asset 0 1] loader_init =
     loader_init\<lparr>loaded_out := loaded_out loader_init @ [new_asset 0 1]\<rparr> \<and>
   run (fails_on 2) ([new_asset 0 1] @ new_asset 0 2 # [new_asset 0 3]) loader_init =
     loader_init\<lparr>loaded_out := loaded_out loader_init @ [new_asset 0 1],
       exception_queue := exception_queue loader_init @ [''Traceback''], running := False\<rparr> \<and>
   run (interrupted_on 2) ([new_asset 0 1] @ new_asset 0 2 # [new_asset 0 3]) loader_init =
     loader_init\<lparr>loaded_out := loaded_out loader_init @ [new_asset 0 1], running := False\<rparr>"
proof -
  have pre: "\<forall>a\<in>set [new_asset 0 1]. loaded a \<or> fails_on 2 a = Returned"
    by (simp add: fails_on_def new_asset_def asset_init_def get_id_def)
  have a: "\<not> loaded (new_asset 0 2) \<and> fails_on 2 (new_asset 0 2) = Raised ''Traceback''"
    by (simp add: fails_on_def new_asset_def asset_init_def get_id_def)
  have pre': "\<forall>a\<in>set [new_asset 0 1]. loaded a \<or> interrupted_on 2 a = Returned"
    by (simp add: interrupted_on_def new_asset_def asset_init_def get_id_def)
  have a': "\<not> loaded (new_asset 0 2) \<and> interrupted_on 2 (new_asset 0 2) = RaisedBase"
    by (simp add: interrupted_on_def new_asset_def asset_init_def get_id_def)
  from run_publishes_until_fault [OF pre, of loader_init "new_asset 0 2" "''Traceback''"
      "[new_asset 0 3]"] a
    run_publishes_until_fault [OF pre', of loader_init "new_asset 0 2" "''Traceback''"
      "[new_asset 0 3]"] a'
  show ?thesis by blast
qed

text \<open>
  The claim as it was written fails when the primitive raises: the asset is never put on
  the loaded queue.
\<close>

theorem run_fault_not_published:
  "loaded_out (run raising_primitive [new_asset 0 1] loader_init) = [] \<and>
   exception_queue (run raising_primitive [new_asset 0 1] loader_init) = [''NotImplementedError'']"
  by (simp add: raising_primitive_def new_asset_def asset_init_def get_id_def loader_init_def)

section \<open>Loading and unloading one asset\<close>

lemma called_set:
  "set (concat (map (\<lambda>c. case c of Callable n \<Rightarrow> [n] | NotCallable \<Rightarrow> []) cs)) =
     {n. Callable n \<in> set cs}"
  by (induction cs) (auto split: callback.splits)

lemma called_distinct:
  "distinct cs \<Longrightarrow>
   distinct (concat (map (\<lambda>c. case c of Callable n \<Rightarrow> [n] | NotCallable \<Rightarrow> []) cs))"
  by (induction cs) (auto split: callback.splits simp: called_set)

text \<open>The pending set has no repetitions: a new asset has none, and \<^verbatim>\<open>load\<close> adds none.\<close>

lemma asset_init_callbacks: "distinct (callbacks (fst (asset_init n f c i)))"
  by (simp add: asset_init_def get_id_def)

lemma load_callbacks:
  "distinct (callbacks a) \<Longrightarrow> distinct (callbacks (fst (load cb prio (a, m))))"
  by (simp add: load_def call_callbacks_def Let_def)

text \<open>
  Claim C4: \<^verbatim>\<open>load\<close> on a loaded asset calls every callable of the pending set, the
  one just passed included, before it returns, each of them once; it leaves the set empty
  and does not touch the manager: no request is queued and no counter changes.
\<close>

theorem load_loaded_calls_back:
  assumes "loaded a" and "distinct (callbacks a)"
  shows "\<exists>called.
           load cb prio (a, m) =
             (a\<lparr>priority := (if prio \<noteq> VNone then prio else priority a), callbacks := []\<rparr>,
              m, called) \<and>
           distinct called \<and>
           set called = {n. Callable n = cb \<or> Callable n \<in> set (callbacks a)}"
  using assms
  by (auto simp: load_def call_callbacks_def called_set called_distinct Let_def)

theorem load_loaded_calls_back_witness:
  "loaded loaded_asset \<and> distinct (callbacks loaded_asset) \<and>
   (\<exists>called.
      load (Callable 2) VNone (loaded_asset, manager_init) =
        (loaded_asset\<lparr>callbacks := []\<rparr>, manager_init, called) \<and>
      distinct called \<and> set called = {1, 2})"
proof -
  have l: "loaded loaded_asset" and d: "distinct (callbacks loaded_asset)"
    by (simp_all add: loaded_asset_def)
  have c: "{n. Callable n = Callable 2 \<or> Callable n \<in> set (callbacks loaded_asset)} = {1, 2}"
    by (auto simp: loaded_asset_def)
  have p: "loaded_asset\<lparr>priority := (if VNone \<noteq> VNone then VNone else priority loaded_asset),
             callbacks := []\<rparr> = loaded_asset\<lparr>callbacks := []\<rparr>"
    by simp
  from load_loaded_calls_back [OF l d, of "Callable 2" VNone manager_init] l d
  show ?thesis unfolding c p by blast
qed


lemma unload_eq:
  "unload do_unload (a, m) =
     (case do_unload (a\<lparr>unloading := True, loaded := False, loading := False\<rparr>) of
        Some exc \<Rightarrow> Inl exc
      | None \<Rightarrow>
          Inr (a\<lparr>unloading := False, loaded := False, loading := False\<rparr>, m,
               [a\<lparr>unloading := True, loaded := False, loading := False\<rparr>]))"
  by (simp add: unload_def Let_def split: option.split)

text \<open>
  Claim C6: \<^verbatim>\<open>unload\<close> does its work before it returns. It calls the unload primitive
  once, on the asset with \<^verbatim>\<open>unloading\<close> set and \<^verbatim>\<open>loaded\<close> and \<^verbatim>\<open>loading\<close>
  cleared. When the primitive raises, so does \<^verbatim>\<open>unload\<close>. When the primitive returns,
  \<^verbatim>\<open>unload\<close> returns the same asset with all three flags false, and the manager with
  its queues as it was; and these are the only ways for \<^verbatim>\<open>unload\<close> to return.
\<close>

theorem unload_synchronous:
  "unload do_unload (a, m) =
     (case do_unload (a\<lparr>unloading := True, loaded := False, loading := False\<rparr>) of
        Some exc \<Rightarrow> Inl exc
      | None \<Rightarrow>
          Inr (a\<lparr>unloading := False, loaded := False, loading := False\<rparr>, m,
               [a\<lparr>unloading := True, loaded := False, loading := False\<rparr>])) \<and>
   (unload do_unload (a, m) = Inr (a', m', calls) \<longrightarrow>
      \<not> loaded a' \<and> \<not> loading a' \<and> \<not> unloading a' \<and>
      a' = a\<lparr>unloading := False, loaded := False, loading := False\<rparr> \<and> m' = m \<and>
      calls = [a\<lparr>unloading := True, loaded := False, loading := False\<rparr>] \<and>
      do_unload (a\<lparr>unloading := True, loaded := False, loading := False\<rparr>) = None)"
proof (cases "do_unload (a\<lparr>unloading := True, loaded := False, loading := False\<rparr>)")
  case None
  then have "unload do_unload (a, m) =
      Inr (a\<lparr>unloading := False, loaded := False, loading := False\<rparr>, m,
           [a\<lparr>unloading := True, loaded := False, loading := False\<rparr>])"
    by (simp add: unload_eq)
  with None show ?thesis by clarsimp
next
  case (Some exc)
  then have "unload do_unload (a, m) = Inl exc"
    by (simp add: unload_eq)
  with Some show ?thesis by clarsimp
qed

theorem unload_synchronous_witness:
  "unload returning_primitive (loaded_asset, manager_init) =
     Inr (loaded_asset\<lparr>unloading := False, loaded := False, loading := False\<rparr>, manager_init,
          [loaded_asset\<lparr>unloading := True, loaded := False, loading := False\<rparr>]) \<and>
   unload raising_unload (loaded_asset, manager_init) = Inl ''NotImplementedError''"
proof -
  have r: "returning_primitive
             (loaded_asset\<lparr>unloading := True, loaded := False, loading := False\<rparr>) = None"
    by (simp add: returning_primitive_def)
  have e: "raising_unload
             (loaded_asset\<lparr>unloading := True, loaded := False, loading := False\<rparr>) =
           Some ''NotImplementedError''"
    by (simp add: raising_unload_def)
  have 1: "unload returning_primitive (loaded_asset, manager_init) =
     Inr (loaded_asset\<lparr>unloading := False, loaded := False, loading := False\<rparr>, manager_init,
          [loaded_asset\<lparr>unloading := True, loaded := False, loading := False\<rparr>])"
    using unload_synchronous [of returning_primitive loaded_asset manager_init, THEN conjunct1]
    by (simp add: r)
  have 2: "unload raising_unload (loaded_asset, manager_init) = Inl ''NotImplementedError''"
    using unload_synchronous [of raising_unload loaded_asset manager_init, THEN conjunct1]
    by (simp add: e)
  from 1 2 show ?thesis by (rule conjI)
qed

section \<open>The counters\<close>

lemma drain_loaded_count: "fst (drain_loaded q n) = n + int (length q)"
proof (induction q arbitrary: n)
  case Nil
  then show ?case by simp
next
  case (Cons a q)
  from Cons [of "n + 1"] show ?case
    by (cases "drain_loaded q (n + 1)") simp
qed

lemma outstanding_step:
  "outstanding (step e m) =
     outstanding m + (case e of Request a \<Rightarrow> 1 | Completed a \<Rightarrow> - 1 | Tick \<Rightarrow> 0)"
proof (cases e)
  case (Request a)
  then show ?thesis by (simp add: outstanding_def load_asset_def queue_put_def Let_def)
next
  case (Completed a)
  then show ?thesis by (simp add: outstanding_def)
next
  case Tick
  obtain n fin where d: "drain_loaded (loaded_queue m) (num_assets_loaded m) = (n, fin)"
    by (cases "drain_loaded (loaded_queue m) (num_assets_loaded m)")
  have "n = num_assets_loaded m + int (length (loaded_queue m))"
    using drain_loaded_count [of "loaded_queue m" "num_assets_loaded m"] d by simp
  with Tick d show ?thesis
    by (simp add: outstanding_def check_loader_status_def Let_def)
qed

lemma outstanding_exec:
  "outstanding (exec evs m) = outstanding m + int (requests evs) - int (completions evs)"
proof (induction evs arbitrary: m)
  case Nil
  then show ?case by (simp add: exec_def)
next
  case (Cons e evs)
  have "outstanding (exec (e # evs) m) = outstanding (exec evs (step e m))"
    by (simp add: exec_def)
  also have "\<dots> = outstanding (step e m) + int (requests evs) - int (completions evs)"
    by (rule Cons.IH)
  also have "outstanding (step e m) =
      outstanding m + (case e of Request a \<Rightarrow> 1 | Completed a \<Rightarrow> - 1 | Tick \<Rightarrow> 0)"
    by (rule outstanding_step)
  finally show ?case
    by (cases e) simp_all
qed

lemma tick_balanced:
  assumes "outstanding m = 0"
  shows "fst (check_loader_status m) =
           m\<lparr>loaded_queue := [], num_assets_loaded := 0, num_assets_to_load := 0,
              loaded_watcher := False\<rparr>"
proof -
  obtain n fin where d: "drain_loaded (loaded_queue m) (num_assets_loaded m) = (n, fin)"
    by (cases "drain_loaded (loaded_queue m) (num_assets_loaded m)")
  have "n = num_assets_loaded m + int (length (loaded_queue m))"
    using drain_loaded_count [of "loaded_queue m" "num_assets_loaded m"] d by simp
  with assms d show ?thesis
    by (simp add: outstanding_def check_loader_status_def Let_def)
qed

text \<open>
  Claim C5: start from a new manager and let anything happen in any order, as long as
  there are \<open>N\<close> load requests and \<open>N\<close> completions in all. The next call of
  \<^verbatim>\<open>_check_loader_status\<close> takes the last completions from the loaded queue and leaves
  both counters at zero and the watcher off; the next request turns the watcher on again.
\<close>

theorem counters_zero_after_batch:
  assumes "requests evs = N" and "completions evs = N"
  shows "num_assets_to_load (exec (evs @ [Tick]) manager_init) = 0 \<and>
         num_assets_loaded (exec (evs @ [Tick]) manager_init) = 0 \<and>
         loaded_queue (exec (evs @ [Tick]) manager_init) = [] \<and>
         \<not> loaded_watcher (exec (evs @ [Tick]) manager_init) \<and>
         loaded_watcher (step (Request a) (exec (evs @ [Tick]) manager_init))"
proof -
  have "outstanding (exec evs manager_init) = 0"
    using assms by (simp add: outstanding_exec) (simp add: outstanding_def manager_init_def)
  then have "exec (evs @ [Tick]) manager_init =
      (exec evs manager_init)\<lparr>loaded_queue := [], num_assets_loaded := 0,
         num_assets_to_load := 0, loaded_watcher := False\<rparr>"
    by (simp add: exec_def tick_balanced)
  then show ?thesis by (simp add: load_asset_def Let_def)
qed

theorem counters_zero_after_batch_witness:
  "requests [Request (new_asset 0 1), Request (new_asset 0 2), Completed (new_asset 0 1), Tick,
             Completed (new_asset 0 2)] = 2 \<and>
   completions [Request (new_asset 0 1), Request (new_asset 0 2), Completed (new_asset 0 1), Tick,
             Completed (new_asset 0 2)] = 2 \<and>
   num_assets_to_load
     (exec ([Request (new_asset 0 1), Request (new_asset 0 2), Completed (new_asset 0 1), Tick,
             Completed (new_asset 0 2)] @ [Tick]) manager_init) = 0 \<and>
   num_assets_loaded
     (exec ([Request (new_asset 0 1), Request (new_asset 0 2), Completed (new_asset 0 1), Tick,
             Completed (new_asset 0 2)] @ [Tick]) manager_init) = 0 \<and>
   \<not> loaded_watcher
     (exec ([Request (new_asset 0 1), Request (new_asset 0 2), Completed (new_asset 0 1), Tick,
             Completed (new_asset 0 2)] @ [Tick]) manager_init)"
proof -
  let ?evs = "[Request (new_asset 0 1), Request (new_asset 0 2), Completed (new_asset 0 1), Tick,
             Completed (new_asset 0 2)]"
  have r: "requests ?evs = 2" and c: "completions ?evs = 2"
    by simp_all
  from counters_zero_after_batch [OF r c] r c show ?thesis by blast
qed

section \<open>Locating a file\<close>

text \<open>
  Claim C8: \<^verbatim>\<open>locate_asset_file\<close> returns the file under the given path when there is
  one, else the file under the machine path when there is one, and else raises its error
  to the caller (a \<^verbatim>\<open>ValueError\<close> that names the file). Without a path it looks
  under the machine path only.
\<close>

theorem locate_asset_file_order:
  "locate_asset_file isfile machine_path file_name pstring path =
     (if path \<noteq> [] \<and> isfile (path_join path [pstring, file_name])
      then Inr (path_join path [pstring, file_name])
      else if isfile (path_join machine_path [pstring, file_name])
      then Inr (path_join machine_path [pstring, file_name])
      else Inl (ValueError file_name))"
  by (simp add: locate_asset_file_def Let_def)

theorem locate_asset_file_order_witness:
  "locate_asset_file only_machine_file ''/machine'' ''x.png'' ''images'' ''/machine/modes/base'' =
     Inr ''/machine/images/x.png'' \<and>
   locate_asset_file only_machine_file ''/machine'' ''y.png'' ''images'' ''/machine/modes/base'' =
     Inl (ValueError ''y.png'')"
proof -
  have j: "path_join ''/machine/modes/base'' [''images'', ''x.png''] = ''/machine/modes/base/images/x.png''"
      "path_join ''/machine'' [''images'', ''x.png''] = ''/machine/images/x.png''"
      "path_join ''/machine/modes/base'' [''images'', ''y.png''] = ''/machine/modes/base/images/y.png''"
      "path_join ''/machine'' [''images'', ''y.png''] = ''/machine/images/y.png''"
    by (simp_all add: path_join_def join_step_def)
  show ?thesis
    using locate_asset_file_order [of only_machine_file "''/machine''" "''x.png''" "''images''" "''/machine/modes/base''"]
      locate_asset_file_order [of only_machine_file "''/machine''" "''y.png''" "''images''" "''/machine/modes/base''"]
    unfolding j by (simp add: only_machine_file_def)
qed

section \<open>Dictionaries\<close>

lemma map_of_fold_update:
  "distinct (map fst xs) \<Longrightarrow>
   map_of (fold (\<lambda>(k, v) acc. AList.update k (g v) acc) xs init) x =
     (case map_of xs x of Some v \<Rightarrow> Some (g v) | None \<Rightarrow> map_of init x)"
proof (induction xs arbitrary: init)
  case Nil
  then show ?case by simp
next
  case (Cons p xs)
  obtain k v where p: "p = (k, v)" by (cases p)
  from Cons.prems p have k: "map_of xs k = None" and d: "distinct (map fst xs)"
    by (auto simp: map_of_eq_None_iff)
  show ?case
    using Cons.IH [OF d, of "AList.update k (g v) init"] p k
    by (simp add: update_conv' split: option.split)
qed

lemma map_of_dict_update:
  "distinct (map fst e) \<Longrightarrow>
   map_of (dict_update d e) x = (case map_of e x of Some v \<Rightarrow> Some v | None \<Rightarrow> map_of d x)"
  unfolding dict_update_def using map_of_fold_update [of e "\<lambda>v. v" d x] by simp

lemma one_entry:
  "distinct (map fst c) \<Longrightarrow> map_of c n = Some b \<Longrightarrow> length (filter (\<lambda>e. fst e = n) c) = 1"
proof (induction c)
  case Nil
  then show ?case by simp
next
  case (Cons p c)
  show ?case
  proof (cases "fst p = n")
    case True
    with Cons.prems(1) have "n \<notin> fst ` set c" by simp
    then have "\<forall>e\<in>set c. fst e \<noteq> n" by (metis imageI)
    then have "filter (\<lambda>e. fst e = n) c = []" by (simp add: filter_empty_conv)
    with True show ?thesis by simp
  next
    case False
    with Cons show ?thesis by (cases p) auto
  qed
qed

section \<open>Registration\<close>

lemma set_defaults_result:
  assumes "assets conf = Some a" and "map_of a (config_section ac0) = Some sec"
    and "map_of sec ''default'' = Some D"
  shows "set_asset_class_defaults ac0 conf =
           Inr (ac0\<lparr>defaults :=
                  fold (\<lambda>(n, s) acc. AList.update n (dict_update D s) acc)
                    (AList.delete ''default'' sec) [(''default'', D)]\<rparr>,
                conf\<lparr>assets :=
                  Some (AList.update (config_section ac0) (AList.delete ''default'' sec) a)\<rparr>)"
proof -
  from assms have "a \<noteq> []" and "sec \<noteq> []" by auto
  with assms show ?thesis
    by (simp add: set_asset_class_defaults_def Let_def)
qed

lemma defaults_lookup:
  assumes "assets conf = Some a" and "map_of a (config_section ac0) = Some sec"
    and "map_of sec ''default'' = Some D" and "distinct (map fst sec)"
    and "set_asset_class_defaults ac0 conf = Inr (ac, conf')"
  shows "map_of (defaults ac) x =
           (if x = ''default'' then Some D
            else case map_of sec x of Some F \<Rightarrow> Some (dict_update D F) | None \<Rightarrow> None)"
proof -
  have ac: "defaults ac = fold (\<lambda>(n, s) acc. AList.update n (dict_update D s) acc)
                    (AList.delete ''default'' sec) [(''default'', D)]"
    using set_defaults_result [OF assms(1-3)] assms(5) by simp
  have d: "distinct (map fst (AList.delete ''default'' sec))"
    using assms(4) by (rule AList.distinct_delete)
  show ?thesis
    unfolding ac map_of_fold_update [OF d]
    by (simp add: delete_conv' split: option.split)
qed

lemma register_plain:
  "set_asset_class_defaults images_class (machine_cfg plain_section) =
     Inr (plain_class, machine_cfg [(''foo'', [(''b'', VInt 2)])])"
  by (simp add: set_asset_class_defaults_def images_class_def machine_cfg_def plain_section_def
      plain_class_def dict_update_def AList.delete_eq Let_def)

lemma register_preload:
  "set_asset_class_defaults images_class (machine_cfg preload_section) =
     Inr (preload_class, machine_cfg [(''foo'', [(''b'', VInt 2)])])"
  by (simp add: set_asset_class_defaults_def images_class_def machine_cfg_def preload_section_def
      preload_class_def dict_update_def AList.delete_eq Let_def)

text \<open>
  Claim C10: registering an asset class changes the machine configuration that the
  manager was given. When \<^verbatim>\<open>config['assets'][section]\<close> is there and not empty, a
  registration that returns has taken the \<^verbatim>\<open>'default'\<close> entry out of it, so the
  section has no such key afterwards; and the registration does return when the attribute
  is new and the section has a \<^verbatim>\<open>'default'\<close> entry.
\<close>

theorem register_pops_default:
  assumes "assets (machine_config r) = Some a" and "a \<noteq> []"
    and "map_of a section = Some sec" and "sec \<noteq> []"
  shows "(attr \<notin> set (mc_attributes r) \<and> map_of sec ''default'' \<noteq> None \<longrightarrow>
            (\<exists>r'. register_asset_class attr section pstring exts prio r = Inr r')) \<and>
         (register_asset_class attr section pstring exts prio r = Inr r' \<longrightarrow>
            map_of sec ''default'' \<noteq> None \<and>
            assets (machine_config r') =
              Some (AList.update section (AList.delete ''default'' sec) a) \<and>
            (\<exists>sec'. map_of (the (assets (machine_config r'))) section = Some sec' \<and>
                    map_of sec' ''default'' = None))"
  using assms
  by (auto simp: register_asset_class_def set_asset_class_defaults_def Let_def update_conv'
      delete_conv' split: option.splits sum.splits if_splits)

theorem register_pops_default_witness:
  "\<exists>r'. register_asset_class ''images'' ''images'' ''images'' [''png''] 0
           (empty_registry plain_section) = Inr r' \<and>
         assets (machine_config r') =
           Some (AList.update ''images'' (AList.delete ''default'' plain_section)
                   [(''images'', plain_section)]) \<and>
         (\<exists>sec'. map_of (the (assets (machine_config r'))) ''images'' = Some sec' \<and>
                 map_of sec' ''default'' = None)"
proof -
  have a: "assets (machine_config (empty_registry plain_section)) = Some [(''images'', plain_section)]"
    by (simp add: empty_registry_def machine_cfg_def)
  have ne: "[(''images'', plain_section)] \<noteq> []" by simp
  have sec: "map_of [(''images'', plain_section)] ''images'' = Some plain_section" by simp
  have sne: "plain_section \<noteq> []" by (simp add: plain_section_def)
  have pre: "''images'' \<notin> set (mc_attributes (empty_registry plain_section)) \<and>
             map_of plain_section ''default'' \<noteq> None"
    by (simp add: empty_registry_def plain_section_def)
  note t = register_pops_default [OF a ne sec sne, of "''images''" "''images''" "[''png'']" 0]
  from t pre obtain r' where
    r: "register_asset_class ''images'' ''images'' ''images'' [''png''] 0
          (empty_registry plain_section) = Inr r'"
    by blast
  from t [of r'] r show ?thesis by blast
qed

section \<open>What discovery builds\<close>

lemma process_steps_append:
  "process_steps ac mn (xs @ ys) c =
     (case process_steps ac mn xs c of Inl e \<Rightarrow> Inl e | Inr c' \<Rightarrow> process_steps ac mn ys c')"
  by (induction xs arbitrary: c) (auto split: sum.splits)

lemma process_files_steps:
  "process_files ac mn path fs c = process_steps ac mn (map (Pair path) fs) c"
  by (induction fs arbitrary: c) (auto split: sum.splits)

lemma process_walk_steps:
  "process_walk ac mn w c = process_steps ac mn (walk_files ac w) c"
proof (induction w arbitrary: c)
  case Nil
  then show ?case by (simp add: walk_files_def)
next
  case (Cons d w)
  obtain path files where d: "d = (path, files)" by (cases d)
  have "walk_files ac (d # w) =
          map (Pair path) (filter (\<lambda>f. endswith_any f (extensions ac)) files) @ walk_files ac w"
    by (simp add: walk_files_def d)
  then show ?case
    using Cons.IH by (simp add: d process_steps_append process_files_steps split: sum.splits)
qed

lemma process_file_distinct:
  "distinct (map fst c) \<Longrightarrow> process_file ac mn path f c = Inr c' \<Longrightarrow> distinct (map fst c')"
  by (auto simp: process_file_def distinct_update split: sum.splits prod.splits)

lemma process_steps_distinct:
  "distinct (map fst c) \<Longrightarrow> process_steps ac mn steps c = Inr c' \<Longrightarrow> distinct (map fst c')"
proof (induction steps arbitrary: c)
  case Nil
  then show ?case by simp
next
  case (Cons s steps)
  obtain path f where s: "s = (path, f)" by (cases s)
  from Cons.prems(2) s obtain c1 where
    c1: "process_file ac mn path f c = Inr c1" and r: "process_steps ac mn steps c1 = Inr c'"
    by (auto split: sum.splits)
  from process_file_distinct [OF Cons.prems(1) c1] r show ?case by (rule Cons.IH)
qed

lemma process_file_keys:
  "process_file ac mn path f c = Inr c' \<Longrightarrow> k \<in> fst ` set c \<Longrightarrow> k \<in> fst ` set c'"
  by (auto simp: process_file_def update_keys split: sum.splits prod.splits if_splits
      simp flip: set_map)

lemma process_steps_keys:
  "process_steps ac mn steps c = Inr c' \<Longrightarrow> k \<in> fst ` set c \<Longrightarrow> k \<in> fst ` set c'"
proof (induction steps arbitrary: c)
  case Nil
  then show ?case by simp
next
  case (Cons s steps)
  obtain path f where s: "s = (path, f)" by (cases s)
  from Cons.prems(1) s obtain c1 where
    c1: "process_file ac mn path f c = Inr c1" and r: "process_steps ac mn steps c1 = Inr c'"
    by (auto split: sum.splits)
  from r process_file_keys [OF c1 Cons.prems(2)] show ?case by (rule Cons.IH)
qed

lemma build_config_file:
  "build_config ac c mn path f = Inr (n, b) \<Longrightarrow>
   map_of b ''file'' = Some (VStr (path_join path [f]))"
  by (auto simp: build_config_def Let_def update_conv'
      split: sum.splits prod.splits option.splits if_splits)

lemma foo_stem: "lower (splitext_root ''x.png'') = ''x''"
  by code_simp

lemma foo_folder: "basename ''/machine/images/foo'' = ''foo''"
  by code_simp

lemma foo_entry: "find_entry example_entries ''x.png'' ''x'' = Some (''x'', [(''a'', VInt 9)])"
  by (simp add: find_entry_def example_entries_def)

lemma foo_path: "path_join ''/machine/images/foo'' [''x.png''] = ''/machine/images/foo/x.png''"
  by (simp add: path_join_def join_step_def)

text \<open>
  Claim C3, as amended: take a file in a folder that has defaults of its own and is not the
  folder of the asset class itself, with a matching entry in the config, and let the class
  default, the folder's settings and the entry have a \<^verbatim>\<open>load\<close> key between them. Then
  discovery stores under the entry's name a config in which every key other than
  \<^verbatim>\<open>file\<close> and \<^verbatim>\<open>load\<close> has the entry's value, else the folder's, else the class
  default's; \<^verbatim>\<open>file\<close> is the joined path of the file, and \<^verbatim>\<open>load\<close> is the merged
  value, a \<^verbatim>\<open>mode_start\<close> rewritten with the mode name. The default
  \<^verbatim>\<open>{a: 1, load: preload}\<close> with the folder \<^verbatim>\<open>{b: 2}\<close> and the entry \<^verbatim>\<open>{a: 9}\<close>
  gives \<^verbatim>\<open>{a: 9, load: preload, b: 2, file: <path>}\<close>.
\<close>

theorem discovery_merge_precedence:
  assumes reg: "set_asset_class_defaults ac0 conf = Inr (ac, conf')"
    and a: "assets conf = Some a"
    and sec: "map_of a (config_section ac0) = Some sec"
    and D: "map_of sec ''default'' = Some D"
    and F: "map_of sec folder = Some F"
    and folder: "folder \<noteq> path_string ac0" "basename path = folder"
    and dist: "distinct (map fst sec)" "distinct (map fst F)" "distinct (map fst E)"
    and entry: "find_entry config file_name (lower (splitext_root file_name)) = Some (k, E)"
    and l: "(case map_of E ''load'' of Some v \<Rightarrow> Some v
             | None \<Rightarrow> (case map_of F ''load'' of Some v \<Rightarrow> Some v
                         | None \<Rightarrow> map_of D ''load'')) = Some l"
  shows "\<exists>b. process_file ac mode_name path file_name config = Inr (AList.update k b config) \<and>
           map_of b ''file'' = Some (VStr (path_join path [file_name])) \<and>
           map_of b ''load'' =
             Some (if l = VStr ''mode_start'' then VStr (start_key mode_name) else l) \<and>
           (\<forall>x. x \<noteq> ''file'' \<longrightarrow> x \<noteq> ''load'' \<longrightarrow>
              map_of b x =
                (case map_of E x of Some v \<Rightarrow> Some v
                 | None \<Rightarrow> (case map_of F x of Some v \<Rightarrow> Some v | None \<Rightarrow> map_of D x)))"
proof -
  have ps: "path_string ac = path_string ac0"
    using set_defaults_result [OF a sec D] reg by auto
  obtain D' where dl: "map_of (defaults ac) folder = Some D'"
    and D': "map_of D' x =
               (case map_of F x of Some v \<Rightarrow> Some v | None \<Rightarrow> map_of D x)" for x
  proof (cases "folder = ''default''")
    case True
    with D F have "F = D" by simp
    moreover have "map_of (defaults ac) folder = Some D"
      using defaults_lookup [OF a sec D dist(1) reg, of folder] True by simp
    ultimately show ?thesis
      using that [of D] by (simp split: option.split)
  next
    case False
    then have "map_of (defaults ac) folder = Some (dict_update D F)"
      using defaults_lookup [OF a sec D dist(1) reg, of folder] F by simp
    then show ?thesis
      using that [of "dict_update D F"] by (simp add: map_of_dict_update dist(2))
  qed
  from dl have ds: "default_string ac folder = folder"
    using folder(1) ps by (simp add: default_string_def)
  have me: "merge_entry ac config path file_name = Inr (k, dict_update D' E)"
    using ds dl entry folder(2) by (simp add: merge_entry_def Let_def)
  have m: "map_of (dict_update D' E) x =
             (case map_of E x of Some v \<Rightarrow> Some v
              | None \<Rightarrow> (case map_of F x of Some v \<Rightarrow> Some v | None \<Rightarrow> map_of D x))" for x
    by (simp add: map_of_dict_update dist(3) D' split: option.split)
  let ?built = "AList.update ''file'' (VStr (path_join path [file_name])) (dict_update D' E)"
  have bl: "map_of ?built ''load'' = Some l"
    using l by (simp add: update_conv' m)
  let ?b = "if l = VStr ''mode_start''
            then AList.update ''load'' (VStr (start_key mode_name)) ?built else ?built"
  have bc: "build_config ac config mode_name path file_name = Inr (k, ?b)"
    using me bl by (simp add: build_config_def Let_def)
  have "process_file ac mode_name path file_name config = Inr (AList.update k ?b config)"
    using bc by (simp add: process_file_def)
  moreover have "map_of ?b ''file'' = Some (VStr (path_join path [file_name]))"
    by (simp add: update_conv')
  moreover have "map_of ?b ''load'' =
      Some (if l = VStr ''mode_start'' then VStr (start_key mode_name) else l)"
    using bl by (simp add: update_conv')
  moreover have "\<forall>x. x \<noteq> ''file'' \<longrightarrow> x \<noteq> ''load'' \<longrightarrow>
              map_of ?b x =
                (case map_of E x of Some v \<Rightarrow> Some v
                 | None \<Rightarrow> (case map_of F x of Some v \<Rightarrow> Some v | None \<Rightarrow> map_of D x))"
    using m by (simp add: update_conv')
  ultimately show ?thesis by blast
qed

theorem discovery_merge_precedence_witness:
  "set_asset_class_defaults images_class (machine_cfg preload_section) =
     Inr (preload_class, machine_cfg [(''foo'', [(''b'', VInt 2)])]) \<and>
   find_entry example_entries ''x.png'' (lower (splitext_root ''x.png'')) =
     Some (''x'', [(''a'', VInt 9)]) \<and>
   (\<exists>b. process_file preload_class None ''/machine/images/foo'' ''x.png'' example_entries =
           Inr (AList.update ''x'' b example_entries) \<and>
         map_of b ''file'' = Some (VStr ''/machine/images/foo/x.png'') \<and>
         map_of b ''load'' = Some (VStr ''preload'') \<and>
         map_of b ''a'' = Some (VInt 9) \<and>
         map_of b ''b'' = Some (VInt 2))"
proof -
  let ?D = "[(''a'', VInt 1), (''load'', VStr ''preload'')]"
  let ?F = "[(''b'', VInt 2)]"
  let ?E = "[(''a'', VInt 9)]"
  have a: "assets (machine_cfg preload_section) = Some [(''images'', preload_section)]"
    by (simp add: machine_cfg_def)
  have sec: "map_of [(''images'', preload_section)] (config_section images_class) = Some preload_section"
    by (simp add: images_class_def)
  have D: "map_of preload_section ''default'' = Some ?D"
    and F: "map_of preload_section ''foo'' = Some ?F"
    and ds: "distinct (map fst preload_section)"
    by (simp_all add: preload_section_def)
  have f2: "''foo'' \<noteq> path_string images_class"
    by (simp add: images_class_def)
  have dF: "distinct (map fst ?F)" and dE: "distinct (map fst ?E)" by simp_all
  have entry: "find_entry example_entries ''x.png'' (lower (splitext_root ''x.png'')) =
                 Some (''x'', ?E)"
    by (simp add: foo_stem foo_entry)
  have l: "(case map_of ?E ''load'' of Some v \<Rightarrow> Some v
            | None \<Rightarrow> (case map_of ?F ''load'' of Some v \<Rightarrow> Some v
                        | None \<Rightarrow> map_of ?D ''load'')) = Some (VStr ''preload'')"
    by simp
  from discovery_merge_precedence [OF register_preload a sec D F f2 foo_folder ds dF dE entry l,
      of None]
  obtain b where
    p: "process_file preload_class None ''/machine/images/foo'' ''x.png'' example_entries =
          Inr (AList.update ''x'' b example_entries)"
    and fl: "map_of b ''file'' = Some (VStr (path_join ''/machine/images/foo'' [''x.png'']))"
    and ld: "map_of b ''load'' = Some (VStr ''preload'')"
    and rest: "\<forall>x. x \<noteq> ''file'' \<longrightarrow> x \<noteq> ''load'' \<longrightarrow>
              map_of b x =
                (case map_of ?E x of Some v \<Rightarrow> Some v
                 | None \<Rightarrow> (case map_of ?F x of Some v \<Rightarrow> Some v | None \<Rightarrow> map_of ?D x))"
    by auto
  from rest have "map_of b ''a'' = Some (VInt 9)" and "map_of b ''b'' = Some (VInt 2)"
    by simp_all
  with p fl ld register_preload entry show ?thesis
    unfolding foo_path by blast
qed

text \<open>
  The claim as it was written fails on its own example: with the default \<^verbatim>\<open>{a: 1}\<close>,
  the folder \<^verbatim>\<open>{b: 2}\<close> and the entry \<^verbatim>\<open>{a: 9}\<close> no config has a \<^verbatim>\<open>load\<close> key, and
  discovery raises \<^verbatim>\<open>KeyError\<close> where it reads \<^verbatim>\<open>built_up_config['load']\<close>.
  And in a class whose own folder is called \<^verbatim>\<open>foo\<close>, a file in that folder gets
  the class default, without the settings of the section \<^verbatim>\<open>foo\<close>.
\<close>

theorem discovery_merge_example_raises:
  "set_asset_class_defaults images_class (machine_cfg plain_section) =
     Inr (plain_class, machine_cfg [(''foo'', [(''b'', VInt 2)])]) \<and>
   create_asset_config_entries foo_walk ''/machine'' plain_class example_entries None [] =
     Inl (KeyError ''load'') \<and>
   process_file foo_class None ''/machine/foo'' ''x.png'' example_entries =
     Inr [(''x'', [(''a'', VInt 9), (''load'', VStr ''preload''),
                   (''file'', VStr ''/machine/foo/x.png'')])]"
proof -
  have w: "foo_walk (path_join ''/machine'' [path_string plain_class]) =
             [(''/machine/images'', []), (''/machine/images/foo'', [''x.png''])]"
    by (simp add: foo_walk_def plain_class_def images_class_def path_join_def join_step_def)
  have v: "endswith_any ''x.png'' (extensions plain_class)"
    by (simp add: endswith_any_def endswith_def plain_class_def images_class_def)
  have m: "merge_entry plain_class example_entries ''/machine/images/foo'' ''x.png'' =
             Inr (''x'', [(''a'', VInt 9), (''b'', VInt 2)])"
    by (simp add: merge_entry_def foo_folder foo_stem foo_entry default_string_def plain_class_def
        images_class_def dict_update_def Let_def)
  have "process_file plain_class None ''/machine/images/foo'' ''x.png'' example_entries =
          Inl (KeyError ''load'')"
    by (simp add: process_file_def build_config_def m Let_def)
  then have r: "create_asset_config_entries foo_walk ''/machine'' plain_class example_entries None [] =
     Inl (KeyError ''load'')"
    by (simp add: create_asset_config_entries_def w v Let_def)
  have base: "basename ''/machine/foo'' = ''foo''" by code_simp
  have "process_file foo_class None ''/machine/foo'' ''x.png'' example_entries =
     Inr [(''x'', [(''a'', VInt 9), (''load'', VStr ''preload''),
                   (''file'', VStr ''/machine/foo/x.png'')])]"
    by (simp add: process_file_def build_config_def merge_entry_def foo_stem base find_entry_def
        default_string_def foo_class_def preload_class_def images_class_def dict_update_def
        path_join_def join_step_def example_entries_def Let_def)
  with register_plain r show ?thesis by blast
qed

text \<open>
  Claim C9: a file whose config has no \<^verbatim>\<open>load\<close> key after the merge with its entry
  does not get a config: \<^verbatim>\<open>built_up_config['load']\<close> raises \<^verbatim>\<open>KeyError\<close>, and
  that ends the whole walk, whatever files were done before and whatever files follow.
\<close>

theorem discovery_requires_load:
  assumes "merge_entry ac config path f = Inr (n, merged)" and "map_of merged ''load'' = None"
  shows "process_file ac mode_name path f config = Inl (KeyError ''load'') \<and>
         (walk_files ac w = pre @ (path, f) # post \<and>
          process_steps ac mode_name pre config0 = Inr config \<longrightarrow>
            process_walk ac mode_name w config0 = Inl (KeyError ''load''))"
proof -
  have "build_config ac config mode_name path f = Inl (KeyError ''load'')"
    using assms by (simp add: build_config_def Let_def update_conv')
  then have pf: "process_file ac mode_name path f config = Inl (KeyError ''load'')"
    by (simp add: process_file_def)
  then show ?thesis
    by (simp add: process_walk_steps process_steps_append)
qed

theorem discovery_requires_load_witness:
  "merge_entry plain_class
     [(''y'', [(''a'', VInt 1), (''load'', VStr ''preload''), (''file'', VStr ''/machine/images/y.png'')]),
      (''x'', [(''a'', VInt 9)])]
     ''/machine/images/foo'' ''x.png'' = Inr (''x'', [(''a'', VInt 9), (''b'', VInt 2)]) \<and>
   map_of [(''a'', VInt 9), (''b'', VInt 2)] ''load'' = None \<and>
   process_walk plain_class None mixed_walk mixed_entries = Inl (KeyError ''load'')"
proof -
  let ?c = "[(''y'', [(''a'', VInt 1), (''load'', VStr ''preload''),
                      (''file'', VStr ''/machine/images/y.png'')]),
             (''x'', [(''a'', VInt 9)])]"
  have m: "merge_entry plain_class ?c ''/machine/images/foo'' ''x.png'' =
             Inr (''x'', [(''a'', VInt 9), (''b'', VInt 2)])"
    by (simp add: merge_entry_def foo_folder foo_stem find_entry_def default_string_def
        plain_class_def images_class_def dict_update_def Let_def)
  have l: "map_of [(''a'', VInt 9), (''b'', VInt 2)] ''load'' = None" by simp
  have w: "walk_files plain_class mixed_walk =
             [(''/machine/images'', ''y.png'')] @ (''/machine/images/foo'', ''x.png'') #
             [(''/machine/images/foo'', ''z.png'')]"
    by (simp add: walk_files_def mixed_walk_def endswith_any_def endswith_def plain_class_def
        images_class_def)
  have stem: "lower (splitext_root ''y.png'') = ''y''" by code_simp
  have base: "basename ''/machine/images'' = ''images''" by code_simp
  have pre: "process_steps plain_class None [(''/machine/images'', ''y.png'')] mixed_entries = Inr ?c"
    by (simp add: process_file_def build_config_def merge_entry_def stem base find_entry_def
        default_string_def plain_class_def images_class_def dict_update_def mixed_entries_def
        path_join_def join_step_def Let_def)
  from discovery_requires_load [OF m l, of None mixed_walk "[(''/machine/images'', ''y.png'')]"
      "[(''/machine/images/foo'', ''z.png'')]" mixed_entries] w pre m l
  show ?thesis by blast
qed


lemma distinct_dict_update:
  "distinct (map fst d) \<Longrightarrow> distinct (map fst (dict_update d e))"
  unfolding dict_update_def
  by (induction e arbitrary: d) (auto simp: distinct_update)

lemma build_config_distinct:
  assumes "\<forall>d\<in>snd ` set (defaults ac). distinct (map fst d)"
    and "build_config ac c mn path f = Inr (n, b)"
  shows "distinct (map fst b)"
proof -
  from assms(2) obtain merged where
    m: "merge_entry ac c path f = Inr (n, merged)"
    and b: "b = AList.update ''file'' (VStr (path_join path [f])) merged \<or>
            b = AList.update ''load'' (VStr (start_key mn))
                  (AList.update ''file'' (VStr (path_join path [f])) merged)"
    by (auto simp: build_config_def Let_def split: sum.splits prod.splits option.splits if_splits)
  from m obtain d where d: "map_of (defaults ac) (default_string ac (basename path)) = Some d"
    and "merged = d \<or> (\<exists>v. merged = dict_update d v)"
    by (auto simp: merge_entry_def Let_def split: option.splits prod.splits)
  from d have "d \<in> snd ` set (defaults ac)"
    by (metis map_of_SomeD snd_conv imageI)
  with assms(1) have "distinct (map fst d)" by blast
  with \<open>merged = d \<or> (\<exists>v. merged = dict_update d v)\<close> have "distinct (map fst merged)"
    by (auto simp: distinct_dict_update)
  with b show ?thesis by (auto simp: distinct_update)
qed

lemma build_config_load:
  "build_config ac c mn path f = Inr (n, b) \<Longrightarrow> \<exists>l. map_of b ''load'' = Some l"
  by (auto simp: build_config_def Let_def update_conv'
      split: sum.splits prod.splits option.splits if_splits)

lemma process_file_frame:
  "build_config ac c mn path f = Inr (k, b) \<Longrightarrow> k \<noteq> n \<Longrightarrow>
   process_file ac mn path f c = Inr c' \<Longrightarrow> map_of c' n = map_of c n"
  by (auto simp: process_file_def update_conv')

lemma process_steps_frame:
  "process_steps ac mn steps c = Inr c' \<Longrightarrow> n \<notin> set (resolved ac mn steps c) \<Longrightarrow>
   map_of c' n = map_of c n"
proof (induction steps arbitrary: c)
  case Nil
  then show ?case by simp
next
  case (Cons s steps)
  obtain path f where s: "s = (path, f)" by (cases s)
  from Cons.prems(1) s obtain k b where
    bc: "build_config ac c mn path f = Inr (k, b)"
    and r: "process_steps ac mn steps (AList.update k b c) = Inr c'"
    by (auto simp: process_file_def split: sum.splits prod.splits)
  from Cons.prems(2) s bc have kn: "k \<noteq> n"
    and nr: "n \<notin> set (resolved ac mn steps (AList.update k b c))"
    by auto
  from Cons.IH [OF r nr] kn show ?case by (simp add: update_conv')
qed

lemma merge_entry_found:
  assumes dist: "distinct (map fst c)" and e: "map_of c n = Some e"
    and m: "merge_entry ac c path f = Inr (n, merged)"
  shows "\<exists>d. map_of (defaults ac) (default_string ac (basename path)) = Some d \<and>
             merged = dict_update d e"
proof -
  from m obtain d where d: "map_of (defaults ac) (default_string ac (basename path)) = Some d"
    and cases: "(find_entry c f (lower (splitext_root f)) = None \<and>
                  n = lower (splitext_root f) \<and> merged = d) \<or>
                (\<exists>v. find_entry c f (lower (splitext_root f)) = Some (n, v) \<and>
                  merged = dict_update d v)"
    by (auto simp: merge_entry_def Let_def split: option.splits prod.splits)
  from e have mem: "(n, e) \<in> set c" by (rule map_of_SomeD)
  from cases show ?thesis
  proof
    assume a: "find_entry c f (lower (splitext_root f)) = None \<and>
                 n = lower (splitext_root f) \<and> merged = d"
    then have "\<not> (\<exists>x. x \<in> set c \<and>
        (case x of (k, v) \<Rightarrow> map_of v ''file'' = Some (VStr f) \<or> lower (splitext_root f) = k))"
      by (simp add: find_entry_def find_None_iff)
    with mem a show ?thesis by auto
  next
    assume "\<exists>v. find_entry c f (lower (splitext_root f)) = Some (n, v) \<and>
                  merged = dict_update d v"
    then obtain v where f: "find_entry c f (lower (splitext_root f)) = Some (n, v)"
      and mv: "merged = dict_update d v" by blast
    from f obtain i where "i < length c" and "c ! i = (n, v)"
      unfolding find_entry_def find_Some_iff by metis
    then have "(n, v) \<in> set c"
      by (metis nth_mem)
    with dist have "map_of c n = Some v" by (rule map_of_is_SomeI)
    with e have "v = e" by simp
    with d mv show ?thesis by blast
  qed
qed


text \<open>
  Claim C7, as amended: when two files of a walk are stored under the same name, and no
  file between them or after them is, the walk ends with one entry under that name and
  without an error: the config built for the second file, with the path of the second
  file, written over the entry of the first in place. That config is built on the entry
  that the first file left: its \<^verbatim>\<open>load\<close> is the one of the first file's config (a
  \<^verbatim>\<open>mode_start\<close> rewritten), and every other key but \<^verbatim>\<open>file\<close> has the value of the
  first file's config where that has the key, else the value of the defaults of the second
  file's folder. So it need not be the config that the second file gets on its own.
\<close>

theorem collision_keeps_one_entry:
  assumes dist: "distinct (map fst config)"
    and defs: "\<forall>d\<in>snd ` set (defaults ac). distinct (map fst d)"
    and w: "walk_files ac w = pre @ (path1, f1) # mid @ (path2, f2) # post"
    and pre: "process_steps ac mode_name pre config = Inr c0"
    and b1: "build_config ac c0 mode_name path1 f1 = Inr (n, b1)"
    and mid: "process_steps ac mode_name mid (AList.update n b1 c0) = Inr c1"
    and midn: "n \<notin> set (resolved ac mode_name mid (AList.update n b1 c0))"
    and b2: "build_config ac c1 mode_name path2 f2 = Inr (n, b2)"
    and post: "process_steps ac mode_name post (AList.update n b2 c1) = Inr final"
    and postn: "n \<notin> set (resolved ac mode_name post (AList.update n b2 c1))"
  shows "process_walk ac mode_name w config = Inr final \<and>
         length (filter (\<lambda>e. fst e = n) final) = 1 \<and>
         map_of final n = Some b2 \<and>
         map_of b2 ''file'' = Some (VStr (path_join path2 [f2])) \<and>
         (\<exists>l. map_of b1 ''load'' = Some l \<and>
              map_of b2 ''load'' =
                Some (if l = VStr ''mode_start'' then VStr (start_key mode_name) else l)) \<and>
         (\<exists>d2. map_of (defaults ac) (default_string ac (basename path2)) = Some d2 \<and>
               (\<forall>x. x \<noteq> ''file'' \<longrightarrow> x \<noteq> ''load'' \<longrightarrow>
                  map_of b2 x =
                    (case map_of b1 x of Some v \<Rightarrow> Some v | None \<Rightarrow> map_of d2 x)))"
proof -
  have p1: "process_file ac mode_name path1 f1 c0 = Inr (AList.update n b1 c0)"
    using b1 by (simp add: process_file_def)
  have p2: "process_file ac mode_name path2 f2 c1 = Inr (AList.update n b2 c1)"
    using b2 by (simp add: process_file_def)
  have run: "process_walk ac mode_name w config = Inr final"
    using pre p1 mid p2 post by (simp add: process_walk_steps w process_steps_append)
  have d0: "distinct (map fst c0)"
    using dist pre by (rule process_steps_distinct)
  have d1: "distinct (map fst c1)"
    using distinct_update [OF d0] mid by (rule process_steps_distinct)
  have df: "distinct (map fst final)"
    using distinct_update [OF d1] post by (rule process_steps_distinct)
  have "map_of final n = map_of (AList.update n b2 c1) n"
    using post postn by (rule process_steps_frame)
  then have fin: "map_of final n = Some b2"
    by (simp add: update_conv')
  have one: "length (filter (\<lambda>e. fst e = n) final) = 1"
    using df fin by (rule one_entry)
  have "map_of c1 n = map_of (AList.update n b1 c0) n"
    using mid midn by (rule process_steps_frame)
  then have e1: "map_of c1 n = Some b1"
    by (simp add: update_conv')
  have db1: "distinct (map fst b1)"
    using defs b1 by (rule build_config_distinct)
  obtain l1 where l1: "map_of b1 ''load'' = Some l1"
    using build_config_load [OF b1] by blast
  from b2 obtain merged where
    m: "merge_entry ac c1 path2 f2 = Inr (n, merged)"
    by (auto simp: build_config_def Let_def split: sum.splits prod.splits option.splits)
  from merge_entry_found [OF d1 e1 m] obtain d2 where
    d2: "map_of (defaults ac) (default_string ac (basename path2)) = Some d2"
    and md: "merged = dict_update d2 b1"
    by blast
  have mm: "map_of merged x = (case map_of b1 x of Some v \<Rightarrow> Some v | None \<Rightarrow> map_of d2 x)" for x
    unfolding md by (rule map_of_dict_update [OF db1])
  let ?built = "AList.update ''file'' (VStr (path_join path2 [f2])) merged"
  have bl: "map_of ?built ''load'' = Some l1"
    by (simp add: update_conv' mm l1)
  have b2eq: "b2 = (if l1 = VStr ''mode_start''
                    then AList.update ''load'' (VStr (start_key mode_name)) ?built else ?built)"
    using b2 m bl by (simp add: build_config_def Let_def)
  have fl: "map_of b2 ''file'' = Some (VStr (path_join path2 [f2]))"
    using b2 by (rule build_config_file)
  have ld: "map_of b2 ''load'' =
      Some (if l1 = VStr ''mode_start'' then VStr (start_key mode_name) else l1)"
    unfolding b2eq using bl by (simp add: update_conv')
  have rest: "\<forall>x. x \<noteq> ''file'' \<longrightarrow> x \<noteq> ''load'' \<longrightarrow>
      map_of b2 x = (case map_of b1 x of Some v \<Rightarrow> Some v | None \<Rightarrow> map_of d2 x)"
    unfolding b2eq using mm by (simp add: update_conv')
  from run one fin fl l1 ld d2 rest show ?thesis by blast
qed

lemma zoo_folder: "basename ''/machine/images/zoo'' = ''zoo''"
  by code_simp

lemma y_stem: "lower (splitext_root ''y.png'') = ''y''"
  by code_simp

lemma clash_first:
  "build_config clash_class [] None ''/machine/images/foo'' ''x.png'' =
     Inr (''x'', [(''a'', VInt 7), (''load'', VStr ''attract_start''),
                  (''file'', VStr ''/machine/images/foo/x.png'')])"
  by (simp add: build_config_def merge_entry_def foo_stem foo_folder find_entry_def
      default_string_def clash_class_def images_class_def path_join_def join_step_def Let_def)

lemma clash_second:
  "build_config clash_class
     [(''x'', [(''a'', VInt 7), (''load'', VStr ''attract_start''),
               (''file'', VStr ''/machine/images/foo/x.png'')])]
     None ''/machine/images/zoo'' ''x.png'' =
     Inr (''x'', [(''a'', VInt 7), (''load'', VStr ''attract_start''),
                  (''file'', VStr ''/machine/images/zoo/x.png'')])"
  by (simp add: build_config_def merge_entry_def foo_stem zoo_folder find_entry_def
      default_string_def clash_class_def images_class_def dict_update_def path_join_def
      join_step_def Let_def)

lemma clash_alone:
  "build_config clash_class [] None ''/machine/images/zoo'' ''x.png'' =
     Inr (''x'', [(''a'', VInt 1), (''load'', VStr ''preload''),
                  (''file'', VStr ''/machine/images/zoo/x.png'')])"
  by (simp add: build_config_def merge_entry_def foo_stem zoo_folder find_entry_def
      default_string_def clash_class_def images_class_def path_join_def join_step_def Let_def)

lemma clash_third:
  "build_config clash_class
     [(''x'', [(''a'', VInt 7), (''load'', VStr ''attract_start''),
               (''file'', VStr ''/machine/images/zoo/x.png'')])]
     None ''/machine/images/zoo'' ''y.png'' =
     Inr (''y'', [(''a'', VInt 1), (''load'', VStr ''preload''),
                  (''file'', VStr ''/machine/images/zoo/y.png'')])"
  by (simp add: build_config_def merge_entry_def y_stem zoo_folder find_entry_def
      default_string_def clash_class_def images_class_def path_join_def join_step_def Let_def)

theorem collision_keeps_one_entry_witness:
  "build_config clash_class [] None ''/machine/images/foo'' ''x.png'' =
     Inr (''x'', [(''a'', VInt 7), (''load'', VStr ''attract_start''),
                  (''file'', VStr ''/machine/images/foo/x.png'')]) \<and>
   build_config clash_class
     [(''x'', [(''a'', VInt 7), (''load'', VStr ''attract_start''),
               (''file'', VStr ''/machine/images/foo/x.png'')])]
     None ''/machine/images/zoo'' ''x.png'' =
     Inr (''x'', [(''a'', VInt 7), (''load'', VStr ''attract_start''),
                  (''file'', VStr ''/machine/images/zoo/x.png'')]) \<and>
   process_walk clash_class None later_walk [] =
     Inr [(''x'', [(''a'', VInt 7), (''load'', VStr ''attract_start''),
                   (''file'', VStr ''/machine/images/zoo/x.png'')]),
          (''y'', [(''a'', VInt 1), (''load'', VStr ''preload''),
                   (''file'', VStr ''/machine/images/zoo/y.png'')])] \<and>
   length (filter (\<lambda>e. fst e = ''x'')
     [(''x'', [(''a'', VInt 7), (''load'', VStr ''attract_start''),
               (''file'', VStr ''/machine/images/zoo/x.png'')]),
      (''y'', [(''a'', VInt 1), (''load'', VStr ''preload''),
               (''file'', VStr ''/machine/images/zoo/y.png'')])]) = 1"
proof -
  let ?b1 = "[(''a'', VInt 7), (''load'', VStr ''attract_start''),
              (''file'', VStr ''/machine/images/foo/x.png'')]"
  let ?b2 = "[(''a'', VInt 7), (''load'', VStr ''attract_start''),
              (''file'', VStr ''/machine/images/zoo/x.png'')]"
  let ?b3 = "[(''a'', VInt 1), (''load'', VStr ''preload''),
              (''file'', VStr ''/machine/images/zoo/y.png'')]"
  have d: "distinct (map fst ([] :: cfg dict))" by simp
  have defs: "\<forall>d\<in>snd ` set (defaults clash_class). distinct (map fst d)"
    by (simp add: clash_class_def images_class_def)
  have w: "walk_files clash_class later_walk =
             [] @ (''/machine/images/foo'', ''x.png'') # [] @
             (''/machine/images/zoo'', ''x.png'') # [(''/machine/images/zoo'', ''y.png'')]"
    by (simp add: walk_files_def later_walk_def endswith_any_def endswith_def clash_class_def
        images_class_def)
  have pre: "process_steps clash_class None [] [] = Inr []" by simp
  have mid: "process_steps clash_class None [] (AList.update ''x'' ?b1 []) = Inr [(''x'', ?b1)]"
    by simp
  have midn: "''x'' \<notin> set (resolved clash_class None [] (AList.update ''x'' ?b1 []))"
    by simp
  have u: "AList.update ''x'' ?b2 [(''x'', ?b1)] = [(''x'', ?b2)]" by simp
  have post: "process_steps clash_class None [(''/machine/images/zoo'', ''y.png'')]
                (AList.update ''x'' ?b2 [(''x'', ?b1)]) = Inr [(''x'', ?b2), (''y'', ?b3)]"
    unfolding u by (simp add: process_file_def clash_third)
  have postn: "''x'' \<notin> set (resolved clash_class None [(''/machine/images/zoo'', ''y.png'')]
                (AList.update ''x'' ?b2 [(''x'', ?b1)]))"
    unfolding u by (simp add: clash_third)
  from collision_keeps_one_entry [OF d defs w pre clash_first mid midn clash_second post postn]
    clash_first clash_second
  show ?thesis by blast
qed

text \<open>
  The claim as it was written fails where the folders differ in their defaults: the file
  in \<^verbatim>\<open>zoo\<close> is the last one, and on its own it gets the class default
  \<^verbatim>\<open>{a: 1, load: preload}\<close>; after the file of the same name in \<^verbatim>\<open>foo\<close> the entry has
  the path of the last file, with \<^verbatim>\<open>a\<close> and \<^verbatim>\<open>load\<close> as the folder \<^verbatim>\<open>foo\<close> sets
  them.
\<close>

theorem collision_not_last_alone:
  "process_walk clash_class None clash_walk [] =
     Inr [(''x'', [(''a'', VInt 7), (''load'', VStr ''attract_start''),
                   (''file'', VStr ''/machine/images/zoo/x.png'')])] \<and>
   process_walk clash_class None alone_walk [] =
     Inr [(''x'', [(''a'', VInt 1), (''load'', VStr ''preload''),
                   (''file'', VStr ''/machine/images/zoo/x.png'')])]"
proof -
  have v: "endswith_any ''x.png'' (extensions clash_class)"
    by (simp add: endswith_any_def endswith_def clash_class_def images_class_def)
  show ?thesis
    by (simp add: clash_walk_def alone_walk_def v process_file_def clash_first clash_second
        clash_alone)
qed

end
